theory Spec2Isabelle
  imports Complex_Main "HOL-Library.Word"
begin

unbundle bit_operations_syntax

section \<open>Colour-sensor trainer (scripts/trainer.py)\<close>

text \<open>
  The script parses a sensor log, normalises and one-hot encodes it, trains a small
  perceptron with early stopping and prints the trained parameters as hexadecimal
  bit patterns. Python exceptions are values of \<open>py_error\<close>; a function that can raise
  returns \<open>py_error + 'a\<close>.
\<close>

datatype py_error =
    FileNotFoundError
  | UnicodeDecodeError
  | KeyError string
  | ValueError
  | OverflowError
  | AttributeError
  | ZeroDivisionError

subsection \<open>Feature pipeline: \<open>parse_input\<close>\<close>

text \<open>
  A Python \<open>str\<close> is modelled as a \<open>string\<close> whose characters are the code points
  below 256. On these, \<open>\d\<close> matches the ten ASCII digits and \<open>\w\<close> matches the ASCII
  letters, digits and underscore and the alphanumeric characters of Latin-1.
\<close>

definition is_digit :: "char \<Rightarrow> bool" where
  "is_digit c \<longleftrightarrow> c \<in> set ''0123456789''"

definition is_word :: "char \<Rightarrow> bool" where
  "is_word c \<longleftrightarrow>
     c \<in> set ''0123456789ABCDEFGHIJKLMNOPQRSTUVWXYZ_abcdefghijklmnopqrstuvwxyz'' \<or>
     (of_char c :: nat) \<in> {170, 178, 179, 181, 185, 186, 188, 189, 190} \<or>
     (192 \<le> (of_char c :: nat) \<and> (of_char c :: nat) \<le> 214) \<or>
     (216 \<le> (of_char c :: nat) \<and> (of_char c :: nat) \<le> 246) \<or>
     248 \<le> (of_char c :: nat)"

datatype char_class = Digit | WordChar

fun in_class :: "char_class \<Rightarrow> char \<Rightarrow> bool" where
  "in_class Digit c = is_digit c"
| "in_class WordChar c = is_word c"

text \<open>
  The fragment of regular expressions the script uses: a sequence of literal texts
  and capture groups \<open>(\d+)\<close>, \<open>(\w+)\<close>.
\<close>

datatype re_item = Lit string | Group char_class

text \<open>The first \<open>Some\<close> that \<open>f\<close> gives along a list of candidates.\<close>

fun first_some :: "('a \<Rightarrow> 'b option) \<Rightarrow> 'a list \<Rightarrow> 'b option" where
  "first_some f [] = None"
| "first_some f (x # xs) = (case f x of Some y \<Rightarrow> Some y | None \<Rightarrow> first_some f xs)"

text \<open>
  Matching a pattern at the start of a text, the way Python's backtracking matcher
  does: a literal must be a prefix; a greedy group \<open>(c+)\<close> first takes the longest
  run of characters of its class and gives characters back one at a time, down to
  one, until the rest of the pattern matches. The result is the list of captured
  groups.
\<close>

primrec match_items :: "re_item list \<Rightarrow> string \<Rightarrow> string list option" where
  "match_items [] s = Some []"
| "match_items (p # ps) s =
     (case p of
        Lit l \<Rightarrow> (if take (length l) s = l then match_items ps (drop (length l) s) else None)
      | Group c \<Rightarrow>
          first_some
            (\<lambda>n. map_option (\<lambda>gs. take n s # gs) (match_items ps (drop n s)))
            (rev [1 ..< Suc (length (takeWhile (in_class c) s))]))"

text \<open>\<open>re.search\<close>: the match at the leftmost position of the text that has one.\<close>

fun re_search :: "re_item list \<Rightarrow> string \<Rightarrow> string list option" where
  "re_search ps [] = match_items ps []"
| "re_search ps (c # cs) =
     (case match_items ps (c # cs) of Some gs \<Rightarrow> Some gs | None \<Rightarrow> re_search ps cs)"

text \<open>\<^verbatim>\<open>r'Red: (\d+), Green: (\d+), Blue: (\d+), Clear: (\d+), Color: (\w+)'\<close>\<close>

definition sample_pattern :: "re_item list" where
  "sample_pattern =
     [Lit ''Red: '', Group Digit, Lit '', Green: '', Group Digit, Lit '', Blue: '', Group Digit,
      Lit '', Clear: '', Group Digit, Lit '', Color: '', Group WordChar]"

text \<open>
  \<open>int(s)\<close> on a string of decimal digits. (The interpreter's configurable limit on
  the number of digits of such a string, \<open>sys.set_int_max_str_digits\<close>, is a setting
  of the interpreter and is not modelled.)
\<close>

definition digit_val :: "char \<Rightarrow> int" where
  "digit_val c = int (of_char c) - 48"

definition int_of_digits :: "string \<Rightarrow> int" where
  "int_of_digits s = foldl (\<lambda>a c. 10 * a + digit_val c) 0 s"

text \<open>
  The body of the loop over the lines of the file: a line in which the pattern is
  found gives \<open>[int(r), int(g), int(b), int(c)]\<close> and its colour; any other line
  gives nothing.
\<close>

definition parse_line :: "string \<Rightarrow> (int list \<times> string) option" where
  "parse_line line =
     (case re_search sample_pattern line of
        Some [r, g, b, c, color] \<Rightarrow>
          Some ([int_of_digits r, int_of_digits g, int_of_digits b, int_of_digits c], color)
      | _ \<Rightarrow> None)"

fun parse_lines :: "string list \<Rightarrow> int list list \<Rightarrow> string list \<Rightarrow> int list list \<times> string list" where
  "parse_lines [] data labels = (data, labels)"
| "parse_lines (line # rest) data labels =
     (case parse_line line of
        Some (row, color) \<Rightarrow> parse_lines rest (data @ [row]) (labels @ [color])
      | None \<Rightarrow> parse_lines rest data labels)"


text \<open>
  Iterating over a text file yields its lines, each with its terminating newline
  (the last line may have none).
\<close>

fun file_lines :: "string \<Rightarrow> string \<Rightarrow> string list" where
  "file_lines [] cur = (if cur = [] then [] else [cur])"
| "file_lines (c # cs) cur =
     (if c = CHR 0x0A then (cur @ [c]) # file_lines cs [] else file_lines cs (cur @ [c]))"

text \<open>
  The element types of the numpy arrays the script builds. The values of
  floating-point elements are modelled by the numbers they stand for.
\<close>

datatype dtype = Int64 | UInt64 | Float32 | Float64 | Object

text \<open>\<open>int.bit_length\<close>, for a natural number.\<close>

fun bit_length :: "nat \<Rightarrow> nat" where
  "bit_length n = (if n = 0 then 0 else Suc (bit_length (n div 2)))"

text \<open>
  The \<open>float64\<close> nearest to an integer, ties to the even significand; it is again
  an integer. An integer of at most 53 bits is kept; one of \<open>53 + e\<close> bits is rounded
  to a multiple of \<open>2 ^ e\<close>.
\<close>

definition round_float64 :: "int \<Rightarrow> int" where
  "round_float64 v =
     (let a = nat \<bar>v\<bar>;
          e = bit_length a - 53;
          q = a div 2 ^ e;
          r = a mod 2 ^ e;
          q' = (if 2 ^ e < 2 * r \<or> (2 * r = 2 ^ e \<and> odd q) then q + 1 else q)
      in sgn v * int (q' * 2 ^ e))"

text \<open>
  \<open>np.array\<close> of a list of rows of Python integers (the rows \<open>parse_input\<close> builds all
  have four entries). An integer that fits 64 signed bits is discovered as \<open>int64\<close>,
  a larger one below \<open>2 ^ 64\<close> as \<open>uint64\<close>, any other as a Python object. The array
  has the common type of its entries: that type when all agree, \<open>object\<close> when some
  entry is an object, and \<open>float64\<close>, every entry rounded to it, when \<open>int64\<close> and
  \<open>uint64\<close> meet. An array without entries has type \<open>float64\<close>. The array is the
  pair of its element type and its rows.
\<close>

definition int_dtype :: "int \<Rightarrow> dtype" where
  "int_dtype v =
     (if - (2 ^ 63) \<le> v \<and> v < 2 ^ 63 then Int64
      else if 2 ^ 63 \<le> v \<and> v < 2 ^ 64 then UInt64
      else Object)"

definition np_array :: "int list list \<Rightarrow> dtype \<times> int list list" where
  "np_array data =
     (let ts = map int_dtype (concat data)
      in if ts = [] then (Float64, data)
         else if list_all (\<lambda>t. t = Int64) ts then (Int64, data)
         else if list_all (\<lambda>t. t = UInt64) ts then (UInt64, data)
         else if list_ex (\<lambda>t. t = Object) ts then (Object, data)
         else (Float64, map (map round_float64) data))"


text \<open>
  What it means for a line to contain a sample, stated on the text alone: somewhere
  in the line stands \<open>Red: r, Green: g, Blue: b, Clear: c, Color: w\<close> with \<open>r\<close>, \<open>g\<close>,
  \<open>b\<close>, \<open>c\<close> non-empty digit strings and \<open>w\<close> a non-empty word.
\<close>

definition digits :: "string \<Rightarrow> bool" where
  "digits s \<longleftrightarrow> s \<noteq> [] \<and> list_all is_digit s"

definition word :: "string \<Rightarrow> bool" where
  "word s \<longleftrightarrow> s \<noteq> [] \<and> list_all is_word s"

definition sample_text :: "string \<Rightarrow> string \<Rightarrow> string \<Rightarrow> string \<Rightarrow> string \<Rightarrow> string" where
  "sample_text r g b c w =
     ''Red: '' @ r @ '', Green: '' @ g @ '', Blue: '' @ b @ '', Clear: '' @ c @ '', Color: '' @ w"


text \<open>
  For the proofs: the text a match covers, rebuilt from the pattern and the captured
  groups, and what a list of captured groups must satisfy.
\<close>

fun render :: "re_item list \<Rightarrow> string list \<Rightarrow> string" where
  "render [] gs = []"
| "render (Lit l # ps) gs = l @ render ps gs"
| "render (Group c # ps) [] = []"
| "render (Group c # ps) (g # gs) = g @ render ps gs"

fun groups_ok :: "re_item list \<Rightarrow> string list \<Rightarrow> bool" where
  "groups_ok [] gs \<longleftrightarrow> gs = []"
| "groups_ok (Lit l # ps) gs \<longleftrightarrow> groups_ok ps gs"
| "groups_ok (Group c # ps) [] \<longleftrightarrow> False"
| "groups_ok (Group c # ps) (g # gs) \<longleftrightarrow> g \<noteq> [] \<and> list_all (in_class c) g \<and> groups_ok ps gs"

subsection \<open>Label encoder: \<open>one_hot_encode\<close>\<close>

definition unique_labels :: "string list" where
  "unique_labels = [''Red'', ''Black'', ''Green'', ''White'']"

text \<open>\<^verbatim>\<open>{label: i for i, label in enumerate(unique_labels)}\<close>\<close>

definition label_dict :: "string \<rightharpoonup> nat" where
  "label_dict = foldl (\<lambda>m (i, label). m(label \<mapsto> i)) Map.empty (enumerate 0 unique_labels)"

text \<open>
  The loop \<^verbatim>\<open>encoded[i, label_dict[label]] = 1\<close>; a label that is not a key raises
  \<open>KeyError\<close>, and the function returns nothing.
\<close>

fun encode_loop :: "(nat \<times> string) list \<Rightarrow> real list list \<Rightarrow> py_error + real list list" where
  "encode_loop [] encoded = Inr encoded"
| "encode_loop ((i, label) # rest) encoded =
     (case label_dict label of
        None \<Rightarrow> Inl (KeyError label)
      | Some j \<Rightarrow> encode_loop rest (encoded[i := (encoded ! i)[j := 1]]))"

definition one_hot_encode :: "string list \<Rightarrow> py_error + (real list list \<times> string list)" where
  "one_hot_encode labels =
     (case encode_loop (enumerate 0 labels)
             (replicate (length labels) (replicate (length unique_labels) 0)) of
        Inl e \<Rightarrow> Inl e
      | Inr encoded \<Rightarrow> Inr (encoded, unique_labels))"

text \<open>
  The row the encoding is expected to hold for a label: 1 where the vocabulary has
  that label, 0 elsewhere.
\<close>

definition one_hot_row :: "string \<Rightarrow> real list" where
  "one_hot_row s = map (\<lambda>l. if l = s then 1 else 0) unique_labels"

subsection \<open>Feature pipeline: \<open>normalize_data\<close>\<close>

text \<open>
  \<open>/\<close> is numpy's true division. On arrays of objects it divides the Python
  objects entry by entry and gives an array of objects; on any other arrays its
  result is \<open>float64\<close> unless both operands are \<open>float32\<close>.
\<close>

fun true_divide_dtype :: "dtype \<Rightarrow> dtype \<Rightarrow> dtype" where
  "true_divide_dtype Object b = Object"
| "true_divide_dtype a Object = Object"
| "true_divide_dtype Float32 Float32 = Float32"
| "true_divide_dtype a b = Float64"

text \<open>
  One entry divided by 2048. An entry of a numeric array is converted to \<open>float64\<close>
  and divided, which is exact for a power of two. An entry of an array of objects is
  a Python integer: its quotient by the integer 2048 is the \<open>float\<close> nearest to the
  exact quotient, which is the same number, and Python raises \<open>OverflowError\<close> when
  that is \<open>2 ^ 1024\<close> or more.
\<close>

definition divide_2048 :: "dtype \<Rightarrow> int \<Rightarrow> py_error + real" where
  "divide_2048 t v =
     (if t = Object \<and> 2 ^ 1035 \<le> \<bar>round_float64 v\<bar> then Inl OverflowError
      else Inr (real_of_int (round_float64 v) / 2048))"

text \<open>The first error of a list of results, or all their values.\<close>

fun sequence :: "(py_error + 'a) list \<Rightarrow> py_error + 'a list" where
  "sequence [] = Inr []"
| "sequence (x # xs) =
     (case x of
        Inl e \<Rightarrow> Inl e
      | Inr v \<Rightarrow> (case sequence xs of Inl e \<Rightarrow> Inl e | Inr vs \<Rightarrow> Inr (v # vs)))"

text \<open>
  \<^verbatim>\<open>data / np.array([2048, 2048, 2048, 2048])\<close>. The divisor has shape \<open>(4,)\<close> and
  type \<open>int64\<close>. An array of \<open>n\<close> rows broadcasts against it when its rows have 4
  entries, or 1 entry (which is then repeated); \<open>np.array([])\<close>, of shape \<open>(0,)\<close>, and
  rows of any other length do not, and numpy raises \<open>ValueError\<close>.
\<close>

definition normalize_data :: "dtype \<times> int list list \<Rightarrow> py_error + (dtype \<times> real list list)" where
  "normalize_data data =
     (case data of (t, rows) \<Rightarrow>
        if rows = [] then Inl ValueError
        else if list_all (\<lambda>row. length row = 4) rows then
          (case sequence (map (\<lambda>row. sequence (map (divide_2048 t) row)) rows) of
             Inl e \<Rightarrow> Inl e
           | Inr x \<Rightarrow> Inr (true_divide_dtype t Int64, x))
        else if list_all (\<lambda>row. length row = 1) rows then
          (case sequence (map (\<lambda>row. sequence (replicate 4 (divide_2048 t (hd row)))) rows) of
             Inl e \<Rightarrow> Inl e
           | Inr x \<Rightarrow> Inr (true_divide_dtype t Int64, x))
        else Inl ValueError)"

subsection \<open>Weight exporter: \<open>float_to_hex\<close>\<close>

text \<open>
  A value of type \<open>float32\<close> is modelled by the three fields of its IEEE-754
  single-precision encoding: 1 sign bit, 8 exponent bits, 23 fraction bits.
\<close>

record float32 =
  sign :: "1 word"
  exponent :: "8 word"
  fraction :: "23 word"

text \<open>The 32-bit pattern of a \<open>float32\<close>, and the \<open>float32\<close> of a 32-bit pattern.\<close>

definition bits_of :: "float32 \<Rightarrow> 32 word" where
  "bits_of f =
     push_bit 31 (ucast (sign f)) OR push_bit 23 (ucast (exponent f)) OR ucast (fraction f)"

definition of_bits :: "32 word \<Rightarrow> float32" where
  "of_bits w =
     \<lparr>sign = ucast (drop_bit 31 w), exponent = ucast (drop_bit 23 w), fraction = ucast w\<rparr>"

text \<open>
  The number a finite \<open>float32\<close> stands for (\<open>None\<close> for the infinities and NaNs,
  whose exponent field is 255).
\<close>

definition float32_value :: "float32 \<Rightarrow> real option" where
  "float32_value f =
     (let s = (if sign f = 0 then 1 else - 1);
          e = unat (exponent f);
          m = real (unat (fraction f)) / 2 ^ 23
      in if e = 255 then None
         else if e = 0 then Some (s * m / 2 ^ 126)
         else if 127 \<le> e then Some (s * (1 + m) * 2 ^ (e - 127))
         else Some (s * (1 + m) / 2 ^ (127 - e)))"

definition one_f32 :: float32 where
  "one_f32 = \<lparr>sign = 0, exponent = 127, fraction = 0\<rparr>"


text \<open>
  A NaN has exponent field 255 and a fraction that is not 0; it is signalling when
  the first bit of its fraction is 0.
\<close>

definition is_nan :: "float32 \<Rightarrow> bool" where
  "is_nan f \<longleftrightarrow> exponent f = 255 \<and> fraction f \<noteq> 0"

definition is_signalling_nan :: "float32 \<Rightarrow> bool" where
  "is_signalling_nan f \<longleftrightarrow> is_nan f \<and> \<not> bit (fraction f) 22"

definition snan_f32 :: float32 where
  "snan_f32 = \<lparr>sign = 0, exponent = 255, fraction = 1\<rparr>"

text \<open>
  \<open>struct.pack\<close> takes its argument as a Python \<open>float\<close>, a C \<open>double\<close>, and stores it
  as a C \<open>float\<close>. The two conversions give back every \<open>float32\<close> that is not a NaN
  (infinities, zeros and subnormal numbers included), and make a NaN quiet: they
  set the first bit of its fraction and keep its sign and the rest of the fraction.
\<close>

definition via_double :: "float32 \<Rightarrow> float32" where
  "via_double f = (if is_nan f then f\<lparr>fraction := set_bit 22 (fraction f)\<rparr> else f)"

text \<open>
  \<^verbatim>\<open>struct.pack('<f', f)\<close>: the four bytes of the pattern of the converted value,
  least significant first.
  \<^verbatim>\<open>struct.unpack('<I', b)[0]\<close>: the unsigned integer those four bytes spell,
  least significant first.
\<close>

type_synonym bytes4 = "8 word \<times> 8 word \<times> 8 word \<times> 8 word"

definition pack_f :: "float32 \<Rightarrow> bytes4" where
  "pack_f f =
     (let w = bits_of (via_double f)
      in (ucast w, ucast (drop_bit 8 w), ucast (drop_bit 16 w), ucast (drop_bit 24 w)))"

definition unpack_I :: "bytes4 \<Rightarrow> int" where
  "unpack_I b =
     (case b of (b0, b1, b2, b3) \<Rightarrow>
        uint b0 + 256 * uint b1 + 65536 * uint b2 + 16777216 * uint b3)"

text \<open>
  Python's \<open>hex\<close>: the prefix \<open>0x\<close> (after a minus sign for a negative number) and the
  hexadecimal digits of the magnitude, in lower case, without leading zeros.
\<close>

definition hexdigit :: "nat \<Rightarrow> char" where
  "hexdigit d = ''0123456789abcdef'' ! d"

fun hex_digits :: "nat \<Rightarrow> string" where
  "hex_digits n = (if n < 16 then [hexdigit n] else hex_digits (n div 16) @ [hexdigit (n mod 16)])"

definition hex :: "int \<Rightarrow> string" where
  "hex n = (if n < 0 then ''-0x'' @ hex_digits (nat (- n)) else ''0x'' @ hex_digits (nat n))"

definition float_to_hex :: "float32 \<Rightarrow> string" where
  "float_to_hex f = hex (unpack_I (pack_f f))"

text \<open>
  Modelled from the spec: the decoder of a hexadecimal literal, which is not part of
  the scripts (the literals are read by the consumer of the exported arrays). It
  reads the digits after \<open>0x\<close> as a number, takes it as a 32-bit pattern and
  reinterprets the pattern as a \<open>float32\<close>.
\<close>

definition hexdigit_val :: "char \<Rightarrow> nat option" where
  "hexdigit_val c = map_of (zip ''0123456789abcdef'' [0 ..< 16]) c"

fun read_hex_digits :: "string \<Rightarrow> nat \<Rightarrow> nat option" where
  "read_hex_digits [] acc = Some acc"
| "read_hex_digits (c # cs) acc =
     (case hexdigit_val c of None \<Rightarrow> None | Some d \<Rightarrow> read_hex_digits cs (16 * acc + d))"

definition read_hex_literal :: "string \<Rightarrow> 32 word option" where
  "read_hex_literal s =
     (if take 2 s = ''0x'' \<and> drop 2 s \<noteq> [] then
        (case read_hex_digits (drop 2 s) 0 of
           None \<Rightarrow> None
         | Some n \<Rightarrow> if n < 2 ^ 32 then Some (word_of_nat n) else None)
      else None)"

definition decode_hex :: "string \<Rightarrow> float32 option" where
  "decode_hex s = map_option of_bits (read_hex_literal s)"

subsection \<open>Arrays and the state of the network\<close>

text \<open>
  A two-dimensional numpy array: its shape and its entries (\<open>el a i j\<close> for
  \<open>i < nrows a\<close> and \<open>j < ncols a\<close>). Iterating over it yields its rows, and
  \<open>flatten\<close> lists its entries row by row.
\<close>

record 'a ndarray =
  nrows :: nat
  ncols :: nat
  el :: "nat \<Rightarrow> nat \<Rightarrow> 'a"

definition rows :: "'a ndarray \<Rightarrow> 'a list list" where
  "rows a = map (\<lambda>i. map (el a i) [0 ..< ncols a]) [0 ..< nrows a]"

definition flatten :: "'a ndarray \<Rightarrow> 'a list" where
  "flatten a = concat (rows a)"

text \<open>
  The attributes of a \<open>NeuralNetwork\<close>. The three activations \<open>hidden1\<close>, \<open>hidden2\<close>
  and \<open>output\<close> (here \<open>output_\<close>) are set by \<open>forward\<close>; before its first call the object
  does not have them.
\<close>

record 'a network =
  input_size :: nat
  hidden_size1 :: nat
  hidden_size2 :: nat
  output_size :: nat
  input_weights :: "'a ndarray"
  hidden_weights1 :: "'a ndarray"
  hidden_weights2 :: "'a ndarray"
  hidden_bias1 :: "'a ndarray"
  hidden_bias2 :: "'a ndarray"
  output_bias :: "'a ndarray"
  hidden1 :: "'a ndarray option"
  hidden2 :: "'a ndarray option"
  output_ :: "'a ndarray option"

subsection \<open>Weight exporter: the printed arrays\<close>









subsection \<open>Network core: the arithmetic of numpy\<close>

text \<open>
  What numpy computes on the entries of floating-point arrays is a parameter of the
  model, so that nothing is assumed about rounding, overflow, infinities or NaNs:
  the constants 0, 1 and \<open>float('inf')\<close>; sum, difference, product and quotient of
  two entries; the sum stored by \<open>+=\<close> into an entry of an array; \<open>np.exp\<close>;
  \<open>np.maximum\<close>; the comparisons \<open>>\<close> and \<open><\<close>; the inner product of a row and a
  column that \<open>np.dot\<close> computes; and \<open>np.sum\<close>, \<open>np.max\<close> and \<open>np.mean\<close> of the
  listed entries.
\<close>

record 'a arith =
  fzero :: 'a
  fone :: 'a
  finf :: 'a
  fadd :: "'a \<Rightarrow> 'a \<Rightarrow> 'a"
  fsub :: "'a \<Rightarrow> 'a \<Rightarrow> 'a"
  fmul :: "'a \<Rightarrow> 'a \<Rightarrow> 'a"
  fdiv :: "'a \<Rightarrow> 'a \<Rightarrow> 'a"
  fiadd :: "'a \<Rightarrow> 'a \<Rightarrow> 'a"
  fexp :: "'a \<Rightarrow> 'a"
  fmaximum :: "'a \<Rightarrow> 'a \<Rightarrow> 'a"
  fgreater :: "'a \<Rightarrow> 'a \<Rightarrow> bool"
  fless :: "'a \<Rightarrow> 'a \<Rightarrow> bool"
  finner :: "'a list \<Rightarrow> 'a list \<Rightarrow> 'a"
  fsum :: "'a list \<Rightarrow> 'a"
  fmax :: "'a list \<Rightarrow> 'a"
  fmean :: "'a list \<Rightarrow> 'a"

subsection \<open>Network core: operations on arrays\<close>

text \<open>
  The arrays are two-dimensional, as \<open>train\<close> passes them. An operation on arrays
  whose shapes do not fit raises \<open>ValueError\<close>.
\<close>

definition then_do :: "py_error + 'a \<Rightarrow> ('a \<Rightarrow> py_error + 'b) \<Rightarrow> py_error + 'b" where
  "then_do r f = (case r of Inl e \<Rightarrow> Inl e | Inr x \<Rightarrow> f x)"

definition row_of :: "'a ndarray \<Rightarrow> nat \<Rightarrow> 'a list" where
  "row_of a i = map (el a i) [0 ..< ncols a]"

definition col_of :: "'a ndarray \<Rightarrow> nat \<Rightarrow> 'a list" where
  "col_of a j = map (\<lambda>i. el a i j) [0 ..< nrows a]"

text \<open>\<open>np.dot(a, b)\<close>\<close>

definition dot :: "'a arith \<Rightarrow> 'a ndarray \<Rightarrow> 'a ndarray \<Rightarrow> py_error + 'a ndarray" where
  "dot ops a b =
     (if ncols a = nrows b then
        Inr \<lparr>nrows = nrows a, ncols = ncols b, el = (\<lambda>i j. finner ops (row_of a i) (col_of b j))\<rparr>
      else Inl ValueError)"

text \<open>
  An operation on the entries of two arrays, with numpy's broadcasting: along each
  axis the two lengths are equal, or one of them is 1 and its entry is repeated.
\<close>

definition broadcast_dim :: "nat \<Rightarrow> nat \<Rightarrow> nat option" where
  "broadcast_dim m n =
     (if m = n then Some m else if m = 1 then Some n else if n = 1 then Some m else None)"

definition broadcast ::
  "('a \<Rightarrow> 'a \<Rightarrow> 'a) \<Rightarrow> 'a ndarray \<Rightarrow> 'a ndarray \<Rightarrow> py_error + 'a ndarray" where
  "broadcast f a b =
     (case broadcast_dim (nrows a) (nrows b) of
        None \<Rightarrow> Inl ValueError
      | Some r \<Rightarrow>
          (case broadcast_dim (ncols a) (ncols b) of
             None \<Rightarrow> Inl ValueError
           | Some c \<Rightarrow>
               Inr \<lparr>nrows = r, ncols = c,
                    el = (\<lambda>i j. f (el a (if nrows a = 1 then 0 else i) (if ncols a = 1 then 0 else j))
                                   (el b (if nrows b = 1 then 0 else i) (if ncols b = 1 then 0 else j)))\<rparr>))"

text \<open>
  \<open>a += b\<close> on an array \<open>a\<close>: the result is stored in \<open>a\<close>, so \<open>b\<close> must broadcast to
  the shape of \<open>a\<close>, which is kept.
\<close>

definition iadd :: "'a arith \<Rightarrow> 'a ndarray \<Rightarrow> 'a ndarray \<Rightarrow> py_error + 'a ndarray" where
  "iadd ops a b =
     (if (nrows b = nrows a \<or> nrows b = 1) \<and> (ncols b = ncols a \<or> ncols b = 1) then
        Inr \<lparr>nrows = nrows a, ncols = ncols a,
             el = (\<lambda>i j. fiadd ops (el a i j)
                            (el b (if nrows b = 1 then 0 else i) (if ncols b = 1 then 0 else j)))\<rparr>
      else Inl ValueError)"

definition map_array :: "('a \<Rightarrow> 'b) \<Rightarrow> 'a ndarray \<Rightarrow> 'b ndarray" where
  "map_array f a = \<lparr>nrows = nrows a, ncols = ncols a, el = (\<lambda>i j. f (el a i j))\<rparr>"

text \<open>\<open>a.T\<close>, \<open>np.sum(a, axis=0, keepdims=True)\<close>, \<open>a[i:j]\<close>\<close>

definition array_T :: "'a ndarray \<Rightarrow> 'a ndarray" where
  "array_T a = \<lparr>nrows = ncols a, ncols = nrows a, el = (\<lambda>i j. el a j i)\<rparr>"

definition sum_axis0 :: "'a arith \<Rightarrow> 'a ndarray \<Rightarrow> 'a ndarray" where
  "sum_axis0 ops a = \<lparr>nrows = 1, ncols = ncols a, el = (\<lambda>i j. fsum ops (col_of a j))\<rparr>"

definition slice_rows :: "nat \<Rightarrow> nat \<Rightarrow> 'a ndarray \<Rightarrow> 'a ndarray" where
  "slice_rows i j a = \<lparr>nrows = min j (nrows a) - i, ncols = ncols a, el = (\<lambda>r. el a (i + r))\<rparr>"

subsection \<open>Network core: \<open>NeuralNetwork\<close>\<close>

text \<open>
  \<open>__init__\<close>. The entries of the three weight matrices are the scaled random draws,
  given here as \<open>w0\<close>, \<open>w1\<close>, \<open>w2\<close>; the scale \<open>np.sqrt(2.0/n)\<close> of a layer of \<open>n\<close>
  inputs raises \<open>ZeroDivisionError\<close> when \<open>n\<close> is 0.
\<close>

definition init ::
  "'a arith \<Rightarrow> nat \<Rightarrow> nat \<Rightarrow> nat \<Rightarrow> nat \<Rightarrow>
   (nat \<Rightarrow> nat \<Rightarrow> 'a) \<Rightarrow> (nat \<Rightarrow> nat \<Rightarrow> 'a) \<Rightarrow> (nat \<Rightarrow> nat \<Rightarrow> 'a) \<Rightarrow> py_error + 'a network" where
  "init ops input_size' hidden_size1' hidden_size2' output_size' w0 w1 w2 =
     (if input_size' = 0 \<or> hidden_size1' = 0 \<or> hidden_size2' = 0 then Inl ZeroDivisionError
      else Inr
        \<lparr>input_size = input_size', hidden_size1 = hidden_size1',
         hidden_size2 = hidden_size2', output_size = output_size',
         input_weights = \<lparr>nrows = input_size', ncols = hidden_size1', el = w0\<rparr>,
         hidden_weights1 = \<lparr>nrows = hidden_size1', ncols = hidden_size2', el = w1\<rparr>,
         hidden_weights2 = \<lparr>nrows = hidden_size2', ncols = output_size', el = w2\<rparr>,
         hidden_bias1 = \<lparr>nrows = 1, ncols = hidden_size1', el = (\<lambda>i j. fzero ops)\<rparr>,
         hidden_bias2 = \<lparr>nrows = 1, ncols = hidden_size2', el = (\<lambda>i j. fzero ops)\<rparr>,
         output_bias = \<lparr>nrows = 1, ncols = output_size', el = (\<lambda>i j. fzero ops)\<rparr>,
         hidden1 = None, hidden2 = None, output_ = None\<rparr>)"

text \<open>\<open>np.maximum(0, x)\<close> and \<open>np.where(x > 0, 1, 0)\<close>\<close>

definition relu :: "'a arith \<Rightarrow> 'a ndarray \<Rightarrow> 'a ndarray" where
  "relu ops x = map_array (fmaximum ops (fzero ops)) x"

definition relu_derivative :: "'a arith \<Rightarrow> 'a ndarray \<Rightarrow> 'a ndarray" where
  "relu_derivative ops x = map_array (\<lambda>v. if fgreater ops v (fzero ops) then fone ops else fzero ops) x"

text \<open>
  \<open>softmax\<close>: the maximum of each row is subtracted before \<open>np.exp\<close>, and each row is
  divided by its sum. \<open>np.max\<close> along rows without entries raises \<open>ValueError\<close>.
\<close>

definition softmax :: "'a arith \<Rightarrow> 'a ndarray \<Rightarrow> py_error + 'a ndarray" where
  "softmax ops x =
     (if ncols x = 0 then Inl ValueError
      else Inr
        \<lparr>nrows = nrows x, ncols = ncols x,
         el = (\<lambda>i j. fdiv ops (fexp ops (fsub ops (el x i j) (fmax ops (row_of x i))))
                        (fsum ops (map (\<lambda>k. fexp ops (fsub ops (el x i k) (fmax ops (row_of x i))))
                                     [0 ..< ncols x])))\<rparr>)"

text \<open>
  \<open>forward\<close> returns the state of the object, with the activations it has set so
  far, and the output or the error raised.
\<close>

definition forward ::
  "'a arith \<Rightarrow> 'a network \<Rightarrow> 'a ndarray \<Rightarrow> 'a network \<times> (py_error + 'a ndarray)" where
  "forward ops self X =
     (case then_do (dot ops X (input_weights self))
             (\<lambda>a. broadcast (fadd ops) a (hidden_bias1 self)) of
        Inl e \<Rightarrow> (self, Inl e)
      | Inr z1 \<Rightarrow>
          (case then_do (dot ops (relu ops z1) (hidden_weights1 self))
                  (\<lambda>a. broadcast (fadd ops) a (hidden_bias2 self)) of
             Inl e \<Rightarrow> (self\<lparr>hidden1 := Some (relu ops z1)\<rparr>, Inl e)
           | Inr z2 \<Rightarrow>
               (case then_do (then_do (dot ops (relu ops z2) (hidden_weights2 self))
                                (\<lambda>a. broadcast (fadd ops) a (output_bias self)))
                       (softmax ops) of
                  Inl e \<Rightarrow>
                    (self\<lparr>hidden1 := Some (relu ops z1), hidden2 := Some (relu ops z2)\<rparr>, Inl e)
                | Inr out \<Rightarrow>
                    (self\<lparr>hidden1 := Some (relu ops z1), hidden2 := Some (relu ops z2),
                          output_ := Some out\<rparr>, Inr out))))"

text \<open>Reading an attribute that \<open>forward\<close> has not set yet raises \<open>AttributeError\<close>.\<close>

definition attribute :: "'b option \<Rightarrow> py_error + 'b" where
  "attribute v = (case v of None \<Rightarrow> Inl AttributeError | Some x \<Rightarrow> Inr x)"

text \<open>
  The first five statements of \<open>backward\<close> change nothing: they compute
  \<open>output_error\<close>, \<open>hidden2_delta\<close> and \<open>hidden1_delta\<close>.
\<close>

definition deltas ::
  "'a arith \<Rightarrow> 'a network \<Rightarrow> 'a ndarray \<Rightarrow> 'a ndarray \<Rightarrow>
   py_error + ('a ndarray \<times> 'a ndarray \<times> 'a ndarray)" where
  "deltas ops self y output =
     then_do (broadcast (fsub ops) y output) (\<lambda>output_error.
     then_do (dot ops output_error (array_T (hidden_weights2 self))) (\<lambda>hidden2_error.
     then_do (dot ops hidden2_error (array_T (hidden_weights1 self))) (\<lambda>hidden1_error.
     then_do (attribute (hidden2 self)) (\<lambda>h2.
     then_do (broadcast (fmul ops) hidden2_error (relu_derivative ops h2)) (\<lambda>hidden2_delta.
     then_do (attribute (hidden1 self)) (\<lambda>h1.
     then_do (broadcast (fmul ops) hidden1_error (relu_derivative ops h1)) (\<lambda>hidden1_delta.
     Inr (output_error, hidden2_delta, hidden1_delta))))))))"

text \<open>
  A statement \<open>self.w += learning_rate * g\<close>, where computing \<open>g\<close> may raise, and a
  sequence of statements that stops at the first error.
\<close>

definition add_scaled ::
  "'a arith \<Rightarrow> 'a \<Rightarrow> 'a ndarray \<Rightarrow> py_error + 'a ndarray \<Rightarrow> py_error + 'a ndarray" where
  "add_scaled ops learning_rate w g =
     then_do g (\<lambda>g'. iadd ops w (map_array (fmul ops learning_rate) g'))"

definition and_then ::
  "'s \<times> (py_error + unit) \<Rightarrow> ('s \<Rightarrow> 's \<times> (py_error + unit)) \<Rightarrow> 's \<times> (py_error + unit)" where
  "and_then r f = (case r of (s, Inl e) \<Rightarrow> (s, Inl e) | (s, Inr u) \<Rightarrow> f s)"

definition assign ::
  "'s \<Rightarrow> py_error + 'b \<Rightarrow> ('b \<Rightarrow> 's) \<Rightarrow> 's \<times> (py_error + unit)" where
  "assign s v store = (case v of Inl e \<Rightarrow> (s, Inl e) | Inr x \<Rightarrow> (store x, Inr ()))"

text \<open>
  \<open>backward\<close> returns the state of the object, with the updates made so far, and
  the error raised, if any.
\<close>

definition backward ::
  "'a arith \<Rightarrow> 'a network \<Rightarrow> 'a ndarray \<Rightarrow> 'a ndarray \<Rightarrow> 'a ndarray \<Rightarrow> 'a \<Rightarrow>
   'a network \<times> (py_error + unit)" where
  "backward ops self X y output learning_rate =
     (case deltas ops self y output of
        Inl e \<Rightarrow> (self, Inl e)
      | Inr (output_error, hidden2_delta, hidden1_delta) \<Rightarrow>
          and_then
            (assign self
               (add_scaled ops learning_rate (hidden_weights2 self)
                  (then_do (attribute (hidden2 self)) (\<lambda>h2. dot ops (array_T h2) output_error)))
               (\<lambda>w. self\<lparr>hidden_weights2 := w\<rparr>))
          (\<lambda>self. and_then
            (assign self
               (add_scaled ops learning_rate (hidden_weights1 self)
                  (then_do (attribute (hidden1 self)) (\<lambda>h1. dot ops (array_T h1) hidden2_delta)))
               (\<lambda>w. self\<lparr>hidden_weights1 := w\<rparr>))
          (\<lambda>self. and_then
            (assign self
               (add_scaled ops learning_rate (input_weights self)
                  (dot ops (array_T X) hidden1_delta))
               (\<lambda>w. self\<lparr>input_weights := w\<rparr>))
          (\<lambda>self. and_then
            (assign self
               (add_scaled ops learning_rate (output_bias self) (Inr (sum_axis0 ops output_error)))
               (\<lambda>w. self\<lparr>output_bias := w\<rparr>))
          (\<lambda>self. and_then
            (assign self
               (add_scaled ops learning_rate (hidden_bias2 self) (Inr (sum_axis0 ops hidden2_delta)))
               (\<lambda>w. self\<lparr>hidden_bias2 := w\<rparr>))
          (\<lambda>self.
             assign self
               (add_scaled ops learning_rate (hidden_bias1 self) (Inr (sum_axis0 ops hidden1_delta)))
               (\<lambda>w. self\<lparr>hidden_bias1 := w\<rparr>)))))))"

subsection \<open>Network core: \<open>train\<close>\<close>

text \<open>
  \<open>range(0, len(X), batch_size)\<close>: it raises \<open>ValueError\<close> for the step 0 and is empty
  for a negative step.
\<close>

definition batch_starts :: "nat \<Rightarrow> int \<Rightarrow> py_error + nat list" where
  "batch_starts n batch_size =
     (if batch_size = 0 then Inl ValueError
      else if batch_size < 0 then Inr []
      else Inr (map (\<lambda>k. k * nat batch_size) [0 ..< (n + nat batch_size - 1) div nat batch_size]))"

text \<open>
  The loop over the batches. The loss of a batch is added to \<open>epoch_loss\<close>, which is
  only printed; of that statement the model keeps the error it can raise.
\<close>

fun batch_loop ::
  "'a arith \<Rightarrow> 'a ndarray \<Rightarrow> 'a ndarray \<Rightarrow> 'a \<Rightarrow> nat \<Rightarrow> nat list \<Rightarrow> 'a network \<Rightarrow>
   'a network \<times> (py_error + unit)" where
  "batch_loop ops X y learning_rate batch_size [] self = (self, Inr ())"
| "batch_loop ops X y learning_rate batch_size (i # rest) self =
     (case forward ops self (slice_rows i (i + batch_size) X) of
        (self1, Inl e) \<Rightarrow> (self1, Inl e)
      | (self1, Inr output) \<Rightarrow>
          (case backward ops self1 (slice_rows i (i + batch_size) X)
                  (slice_rows i (i + batch_size) y) output learning_rate of
             (self2, Inl e) \<Rightarrow> (self2, Inl e)
           | (self2, Inr u) \<Rightarrow>
               (case broadcast (fsub ops) (slice_rows i (i + batch_size) y) output of
                  Inl e \<Rightarrow> (self2, Inl e)
                | Inr d \<Rightarrow> batch_loop ops X y learning_rate batch_size rest self2)))"

text \<open>
  One epoch up to the test of the validation loss: the batches, the forward pass on
  the validation set, the validation loss \<open>np.mean(np.square(y_val - val_output))\<close>,
  and the line printed every hundredth epoch, whose \<open>epoch_loss/len(X)\<close> raises
  \<open>ZeroDivisionError\<close> when \<open>X\<close> has no rows.
\<close>

definition run_epoch ::
  "'a arith \<Rightarrow> 'a ndarray \<Rightarrow> 'a ndarray \<Rightarrow> 'a ndarray \<Rightarrow> 'a ndarray \<Rightarrow> 'a \<Rightarrow> int \<Rightarrow>
   nat \<Rightarrow> 'a network \<Rightarrow> 'a network \<times> (py_error + 'a)" where
  "run_epoch ops X y X_val y_val learning_rate batch_size epoch self =
     (case batch_starts (nrows X) batch_size of
        Inl e \<Rightarrow> (self, Inl e)
      | Inr starts \<Rightarrow>
          (case batch_loop ops X y learning_rate (nat batch_size) starts self of
             (self1, Inl e) \<Rightarrow> (self1, Inl e)
           | (self1, Inr u) \<Rightarrow>
               (case forward ops self1 X_val of
                  (self2, Inl e) \<Rightarrow> (self2, Inl e)
                | (self2, Inr val_output) \<Rightarrow>
                    (case broadcast (fsub ops) y_val val_output of
                       Inl e \<Rightarrow> (self2, Inl e)
                     | Inr d \<Rightarrow>
                         if epoch mod 100 = 0 \<and> nrows X = 0 then (self2, Inl ZeroDivisionError)
                         else (self2, Inr (fmean ops (map (\<lambda>v. fmul ops v v) (flatten d))))))))"

text \<open>
  The loop over the epochs, with the test of the validation loss. It ends with the
  \<open>break\<close> of early stopping at some epoch, or after the last epoch, or with an
  error.
\<close>

datatype stopped = EarlyStopping nat | EpochsDone

fun train_loop ::
  "(nat \<Rightarrow> 's \<Rightarrow> 's \<times> (py_error + 'a)) \<Rightarrow> ('a \<Rightarrow> 'a \<Rightarrow> bool) \<Rightarrow> int \<Rightarrow> nat list \<Rightarrow>
   's \<Rightarrow> 'a \<Rightarrow> int \<Rightarrow> 's \<times> (py_error + stopped)" where
  "train_loop epoch_body lt patience [] self best_val_loss patience_counter = (self, Inr EpochsDone)"
| "train_loop epoch_body lt patience (epoch # rest) self best_val_loss patience_counter =
     (case epoch_body epoch self of
        (self', Inl e) \<Rightarrow> (self', Inl e)
      | (self', Inr val_loss) \<Rightarrow>
          if lt val_loss best_val_loss then
            train_loop epoch_body lt patience rest self' val_loss 0
          else if patience \<le> patience_counter + 1 then (self', Inr (EarlyStopping epoch))
          else train_loop epoch_body lt patience rest self' best_val_loss (patience_counter + 1))"

definition train ::
  "'a arith \<Rightarrow> 'a network \<Rightarrow> 'a ndarray \<Rightarrow> 'a ndarray \<Rightarrow> 'a ndarray \<Rightarrow> 'a ndarray \<Rightarrow>
   int \<Rightarrow> 'a \<Rightarrow> int \<Rightarrow> int \<Rightarrow> 'a network \<times> (py_error + stopped)" where
  "train ops self X y X_val y_val epochs learning_rate batch_size patience =
     train_loop (run_epoch ops X y X_val y_val learning_rate batch_size) (fless ops) patience
       [0 ..< nat epochs] self (finf ops) 0"

subsection \<open>Network core: parameters and shapes\<close>

text \<open>The six parameters of a network, and their shapes.\<close>

definition parameters :: "'a network \<Rightarrow> 'a ndarray list" where
  "parameters self =
     [input_weights self, hidden_weights1 self, hidden_weights2 self,
      hidden_bias1 self, hidden_bias2 self, output_bias self]"

definition shape :: "'a ndarray \<Rightarrow> nat \<times> nat" where
  "shape a = (nrows a, ncols a)"

definition shapes :: "'a network \<Rightarrow> (nat \<times> nat) list" where
  "shapes self = map shape (parameters self)"

text \<open>
  An arithmetic for the examples. It is exact on finite numbers; an operation with
  an operand that is not finite gives NaN, and every finite number is less than
  infinity.
\<close>

datatype number = Finite real | PosInf | NotANumber

fun lift1 :: "(real \<Rightarrow> real) \<Rightarrow> number \<Rightarrow> number" where
  "lift1 f (Finite x) = Finite (f x)"
| "lift1 f v = NotANumber"

fun lift2 :: "(real \<Rightarrow> real \<Rightarrow> real) \<Rightarrow> number \<Rightarrow> number \<Rightarrow> number" where
  "lift2 f (Finite x) (Finite y) = Finite (f x y)"
| "lift2 f v w = NotANumber"

fun number_less :: "number \<Rightarrow> number \<Rightarrow> bool" where
  "number_less (Finite x) (Finite y) \<longleftrightarrow> x < y"
| "number_less (Finite x) PosInf \<longleftrightarrow> True"
| "number_less v w \<longleftrightarrow> False"

definition number_sum :: "number list \<Rightarrow> number" where
  "number_sum xs = foldl (lift2 (+)) (Finite 0) xs"

definition exact_arith :: "number arith" where
  "exact_arith =
     \<lparr>fzero = Finite 0, fone = Finite 1, finf = PosInf,
      fadd = lift2 (+), fsub = lift2 (-), fmul = lift2 (*), fdiv = lift2 (/),
      fiadd = lift2 (+), fexp = lift1 exp, fmaximum = lift2 max,
      fgreater = (\<lambda>v w. number_less w v), fless = number_less,
      finner = (\<lambda>xs ys. number_sum (map2 (lift2 (*)) xs ys)),
      fsum = number_sum,
      fmax = (\<lambda>xs. foldl (lift2 max) (hd xs) (tl xs)),
      fmean = (\<lambda>xs. lift2 (/) (number_sum xs) (Finite (real (length xs))))\<rparr>"

section \<open>Proofs\<close>

subsection \<open>Feature pipeline\<close>

lemma first_some_SomeD: "first_some f xs = Some y \<Longrightarrow> \<exists>x \<in> set xs. f x = Some y"
  by (induction xs) (auto split: option.splits)

lemma first_some_hd: "f x = Some y \<Longrightarrow> first_some f (x # xs) = Some y"
  by simp

lemma take_takeWhile_all:
  assumes n: "n \<le> length (takeWhile P s)"
  shows "list_all P (take n s)"
proof -
  have "take n (takeWhile P s) = take n (take (length (takeWhile P s)) s)"
    using takeWhile_eq_take[of P s] by simp
  also have "\<dots> = take n s" using n by (simp add: min_def)
  finally have "set (take n s) \<subseteq> set (takeWhile P s)"
    by (metis set_take_subset)
  then show ?thesis by (auto simp: list_all_iff dest: set_takeWhileD)
qed

lemma match_items_sound:
  "match_items ps s = Some gs \<Longrightarrow> groups_ok ps gs \<and> (\<exists>post. s = render ps gs @ post)"
proof (induction ps arbitrary: s gs)
  case Nil then show ?case by simp
next
  case (Cons p ps)
  show ?case
  proof (cases p)
    case (Lit l)
    with Cons.prems have pre: "take (length l) s = l" and m: "match_items ps (drop (length l) s) = Some gs"
      by (auto split: if_splits)
    from Cons.IH[OF m] obtain post where ok: "groups_ok ps gs" and d: "drop (length l) s = render ps gs @ post"
      by blast
    have "s = l @ drop (length l) s" using pre by (metis append_take_drop_id)
    with ok d Lit show ?thesis by auto
  next
    case (Group c)
    let ?k = "length (takeWhile (in_class c) s)"
    from Cons.prems Group
    have "first_some (\<lambda>n. map_option (\<lambda>gs. take n s # gs) (match_items ps (drop n s)))
            (rev [1 ..< Suc ?k]) = Some gs" by simp
    from first_some_SomeD[OF this]
    obtain n where n: "n \<in> set (rev [1 ..< Suc ?k])"
      and f: "map_option (\<lambda>gs. take n s # gs) (match_items ps (drop n s)) = Some gs"
      by blast
    from f obtain gs' where gs: "gs = take n s # gs'" and m: "match_items ps (drop n s) = Some gs'"
      by auto
    from Cons.IH[OF m] obtain post where ok: "groups_ok ps gs'" and d: "drop n s = render ps gs' @ post"
      by blast
    from n have n1: "1 \<le> n" and nk: "n \<le> ?k" by auto
    have "?k \<le> length s" by (rule length_takeWhile_le)
    with n1 nk have ne: "take n s \<noteq> []" by auto
    have all: "list_all (in_class c) (take n s)" using nk by (rule take_takeWhile_all)
    have "s = take n s @ drop n s" by simp
    with d have "s = take n s @ render ps gs' @ post" by simp
    with ok ne all gs Group show ?thesis by auto
  qed
qed

lemma match_Lit: "match_items (Lit l # ps) (l @ s) = match_items ps s"
  by simp

lemma match_Group_greedy:
  assumes g: "g \<noteq> []" "list_all (in_class c) g"
    and s: "s = [] \<or> \<not> in_class c (hd s)"
    and m: "match_items ps s = Some gs"
  shows "match_items (Group c # ps) (g @ s) = Some (g # gs)"
proof -
  have tw: "takeWhile (in_class c) (g @ s) = g"
    using g s by (cases s) (auto simp: list_all_iff takeWhile_append2 takeWhile_eq_all_conv)
  have len: "1 \<le> length g" using g by (cases g) auto
  then have "rev [1 ..< Suc (length g)] = length g # rev [1 ..< length g]" by simp
  then show ?thesis using m by (simp add: tw)
qed

lemma match_Group_last:
  assumes g: "g \<noteq> []" "list_all (in_class c) g"
  shows "match_items [Group c] (g @ s) = Some [g @ takeWhile (in_class c) s]"
proof -
  let ?g = "g @ takeWhile (in_class c) s"
  have tw: "takeWhile (in_class c) (g @ s) = ?g"
    using g by (simp add: list_all_iff takeWhile_append2)
  have len: "1 \<le> length ?g" using g by (cases g) auto
  then have r: "rev [1 ..< Suc (length ?g)] = length ?g # rev [1 ..< length ?g]" by simp
  have "take (length ?g) (g @ s) = ?g"
    by (metis tw takeWhile_eq_take)
  then show ?thesis
    unfolding match_items.simps re_item.case tw r by simp
qed


lemma re_search_first:
  "\<forall>k < length pre. match_items ps (drop k (pre @ s)) = None \<Longrightarrow>
   match_items ps s = Some gs \<Longrightarrow> re_search ps (pre @ s) = Some gs"
proof (induction pre)
  case Nil
  then show ?case by (cases s) auto
next
  case (Cons c pre)
  from Cons.prems(1) have "match_items ps (drop 0 ((c # pre) @ s)) = None" by blast
  then have 0: "match_items ps (c # pre @ s) = None" by simp
  have "\<forall>k < length pre. match_items ps (drop k (pre @ s)) = None"
  proof (intro allI impI)
    fix k assume "k < length pre"
    then have "Suc k < length (c # pre)" by simp
    with Cons.prems(1) have "match_items ps (drop (Suc k) ((c # pre) @ s)) = None" by blast
    then show "match_items ps (drop k (pre @ s)) = None" by simp
  qed
  from Cons.IH[OF this Cons.prems(2)] 0 show ?case by simp
qed


lemma re_search_SomeD_first:
  "re_search ps s = Some gs \<Longrightarrow>
   \<exists>k \<le> length s. match_items ps (drop k s) = Some gs \<and>
     (\<forall>j < k. match_items ps (drop j s) = None)"
proof (induction s)
  case Nil then show ?case by simp
next
  case (Cons c cs)
  show ?case
  proof (cases "match_items ps (c # cs)")
    case (Some a)
    with Cons.prems have "match_items ps (drop 0 (c # cs)) = Some gs" by simp
    then show ?thesis by blast
  next
    case None
    with Cons.prems have "re_search ps cs = Some gs" by simp
    from Cons.IH[OF this] obtain k where k: "k \<le> length cs"
      "match_items ps (drop k cs) = Some gs" "\<forall>j < k. match_items ps (drop j cs) = None" by blast
    have "\<forall>j < Suc k. match_items ps (drop j (c # cs)) = None"
    proof (intro allI impI)
      fix j assume "j < Suc k"
      then show "match_items ps (drop j (c # cs)) = None"
        using None k(3) by (cases j) auto
    qed
    with k(1,2) have "Suc k \<le> length (c # cs) \<and> match_items ps (drop (Suc k) (c # cs)) = Some gs
        \<and> (\<forall>j < Suc k. match_items ps (drop j (c # cs)) = None)" by simp
    then show ?thesis by blast
  qed
qed

lemma in_class_eq: "in_class Digit = is_digit" "in_class WordChar = is_word"
  by (auto simp: fun_eq_iff)

lemma not_digit_comma: "\<not> in_class Digit CHR '',''"
  by (simp add: is_digit_def)

lemma match_sample:
  assumes "digits r" "digits g" "digits b" "digits c" "word w"
  shows "match_items sample_pattern (sample_text r g b c w @ post) =
         Some [r, g, b, c, w @ takeWhile is_word post]"
proof -
  have cls: "in_class WordChar = is_word" "in_class Digit = is_digit" by (auto simp: fun_eq_iff)
  have dr: "r \<noteq> []" "list_all (in_class Digit) r" and dg: "g \<noteq> []" "list_all (in_class Digit) g"
    and db: "b \<noteq> []" "list_all (in_class Digit) b" and dc: "c \<noteq> []" "list_all (in_class Digit) c"
    and ww: "w \<noteq> []" "list_all (in_class WordChar) w"
    using assms by (simp_all add: digits_def word_def cls)
  let ?p5 = "[Group WordChar]"
  let ?s5 = "w @ post"
  have m5: "match_items ?p5 ?s5 = Some [w @ takeWhile is_word post]"
    using match_Group_last[OF ww, of post] by (simp only: cls)
  let ?p4 = "Group Digit # Lit '', Color: '' # ?p5"
  let ?s4 = "c @ ('', Color: '' @ ?s5)"
  have "match_items (Lit '', Color: '' # ?p5) ('', Color: '' @ ?s5) = Some [w @ takeWhile is_word post]"
    by (simp only: match_Lit m5)
  then have m4: "match_items ?p4 ?s4 = Some [c, w @ takeWhile is_word post]"
    by (intro match_Group_greedy dc) (simp_all add: is_digit_def)
  let ?p3 = "Group Digit # Lit '', Clear: '' # ?p4"
  let ?s3 = "b @ ('', Clear: '' @ ?s4)"
  have "match_items (Lit '', Clear: '' # ?p4) ('', Clear: '' @ ?s4) = Some [c, w @ takeWhile is_word post]"
    by (simp only: match_Lit m4)
  then have m3: "match_items ?p3 ?s3 = Some [b, c, w @ takeWhile is_word post]"
    by (intro match_Group_greedy db) (simp_all add: is_digit_def)
  let ?p2 = "Group Digit # Lit '', Blue: '' # ?p3"
  let ?s2 = "g @ ('', Blue: '' @ ?s3)"
  have "match_items (Lit '', Blue: '' # ?p3) ('', Blue: '' @ ?s3) = Some [b, c, w @ takeWhile is_word post]"
    by (simp only: match_Lit m3)
  then have m2: "match_items ?p2 ?s2 = Some [g, b, c, w @ takeWhile is_word post]"
    by (intro match_Group_greedy dg) (simp_all add: is_digit_def)
  let ?p1 = "Group Digit # Lit '', Green: '' # ?p2"
  let ?s1 = "r @ ('', Green: '' @ ?s2)"
  have "match_items (Lit '', Green: '' # ?p2) ('', Green: '' @ ?s2) = Some [g, b, c, w @ takeWhile is_word post]"
    by (simp only: match_Lit m2)
  then have m1: "match_items ?p1 ?s1 = Some [r, g, b, c, w @ takeWhile is_word post]"
    by (intro match_Group_greedy dr) (simp_all add: is_digit_def)
  have m0: "match_items (Lit ''Red: '' # ?p1) (''Red: '' @ ?s1) = Some [r, g, b, c, w @ takeWhile is_word post]"
    by (simp only: match_Lit m1)
  have "sample_pattern = Lit ''Red: '' # ?p1" by (simp add: sample_pattern_def)
  moreover have "sample_text r g b c w @ post = ''Red: '' @ ?s1" by (simp add: sample_text_def)
  ultimately show ?thesis using m0 by (simp only:)
qed

lemma match_sample_sound:
  assumes "match_items sample_pattern s = Some gs"
  shows "\<exists>r g b c w post. gs = [r, g, b, c, w] \<and> s = sample_text r g b c w @ post \<and>
           digits r \<and> digits g \<and> digits b \<and> digits c \<and> word w"
proof -
  from match_items_sound[OF assms] obtain post where ok: "groups_ok sample_pattern gs"
    and s: "s = render sample_pattern gs @ post" by blast
  from ok obtain r g b c w where gs: "gs = [r, g, b, c, w]"
    and cls: "digits r" "digits g" "digits b" "digits c" "word w"
    unfolding sample_pattern_def
    by (cases gs; cases "tl gs"; cases "tl (tl gs)"; cases "tl (tl (tl gs))";
        cases "tl (tl (tl (tl gs)))"; cases "tl (tl (tl (tl (tl gs))))")
       (auto simp: digits_def word_def in_class_eq)
  have "render sample_pattern gs = sample_text r g b c w"
    by (simp add: gs sample_pattern_def sample_text_def)
  with s gs cls show ?thesis by blast
qed

lemma digit_val_range: "is_digit c \<Longrightarrow> 0 \<le> digit_val c \<and> digit_val c \<le> 9"
  by (auto simp: is_digit_def digit_val_def)

lemma foldl_digits_nonneg:
  "list_all is_digit s \<Longrightarrow> 0 \<le> a \<Longrightarrow> 0 \<le> foldl (\<lambda>a c. 10 * a + digit_val c) a s"
proof (induction s arbitrary: a)
  case Nil then show ?case by simp
next
  case (Cons c s)
  from Cons.prems have "0 \<le> 10 * a + digit_val c" using digit_val_range[of c] by simp
  with Cons show ?case by simp
qed

lemma int_of_digits_nonneg: "digits s \<Longrightarrow> 0 \<le> int_of_digits s"
  by (simp add: digits_def int_of_digits_def foldl_digits_nonneg)

lemma parse_line_SomeD:
  assumes "parse_line line = Some (row, color)"
  shows "\<exists>pre r g b c post. line = pre @ sample_text r g b c color @ post \<and>
           digits r \<and> digits g \<and> digits b \<and> digits c \<and> word color \<and>
           row = [int_of_digits r, int_of_digits g, int_of_digits b, int_of_digits c] \<and>
           (\<forall>j < length pre. match_items sample_pattern (drop j line) = None)"
proof -
  from assms obtain gs where rs: "re_search sample_pattern line = Some gs"
    by (auto simp: parse_line_def split: option.splits)
  from re_search_SomeD_first[OF rs] obtain k where k: "k \<le> length line"
    "match_items sample_pattern (drop k line) = Some gs"
    "\<forall>j < k. match_items sample_pattern (drop j line) = None" by blast
  from match_sample_sound[OF k(2)] obtain r g b c w post where
    gs: "gs = [r, g, b, c, w]" and d: "drop k line = sample_text r g b c w @ post"
    and cls: "digits r" "digits g" "digits b" "digits c" "word w" by blast
  from assms rs gs have row: "row = [int_of_digits r, int_of_digits g, int_of_digits b, int_of_digits c]"
    and col: "color = w" by (simp_all add: parse_line_def)
  have "line = take k line @ drop k line" by simp
  with d have l: "line = take k line @ sample_text r g b c w @ post" by simp
  have "length (take k line) = k" using k(1) by simp
  with k(3) l cls row col show ?thesis by metis
qed

lemma parse_line_first:
  assumes "digits r" "digits g" "digits b" "digits c" "word w"
    and first: "\<forall>j < length pre. match_items sample_pattern (drop j (pre @ sample_text r g b c w @ post)) = None"
  shows "parse_line (pre @ sample_text r g b c w @ post) =
         Some ([int_of_digits r, int_of_digits g, int_of_digits b, int_of_digits c],
               w @ takeWhile is_word post)"
  using re_search_first[OF first match_sample[OF assms(1-5), of post]]
  by (simp add: parse_line_def)



lemma parse_lines_acc:
  "parse_lines lines data labels =
     (data @ map fst (List.map_filter parse_line lines),
      labels @ map snd (List.map_filter parse_line lines))"
  by (induction lines arbitrary: data labels) (auto simp: List.map_filter_simps split: option.splits)

lemma file_lines_concat: "concat (file_lines contents cur) = cur @ contents"
  by (induction contents arbitrary: cur) auto



lemma white_line:
  "parse_line ''Red: 1794, Green: 2164, Blue: 1742, Clear: 1996, Color: White\<newline>'' =
     Some ([1794, 2164, 1742, 1996], ''White'')"
proof -
  have d: "digits ''1794''" "digits ''2164''" "digits ''1742''" "digits ''1996''"
    by (simp_all add: digits_def is_digit_def)
  have w: "word ''White''" by (simp add: word_def is_word_def)
  have "parse_line ([] @ sample_text ''1794'' ''2164'' ''1742'' ''1996'' ''White'' @ ''\<newline>'') =
      Some ([int_of_digits ''1794'', int_of_digits ''2164'', int_of_digits ''1742'',
             int_of_digits ''1996''], ''White'' @ takeWhile is_word ''\<newline>'')"
    by (rule parse_line_first[OF d w]) simp
  then show ?thesis
    by (simp add: sample_text_def int_of_digits_def digit_val_def is_word_def)
qed

declare bit_length.simps [simp del]

lemma bit_length_le: "n < 2 ^ k \<Longrightarrow> bit_length n \<le> k"
proof (induction n arbitrary: k rule: bit_length.induct)
  case (1 n)
  show ?case
  proof (cases "n = 0")
    case True
    then show ?thesis by (simp add: bit_length.simps)
  next
    case False
    with 1(2) obtain j where k: "k = Suc j" by (cases k) auto
    have "n div 2 < 2 ^ j" using 1(2) k by auto
    from 1(1)[OF False this] show ?thesis
      using False k by (simp add: bit_length.simps[of n])
  qed
qed

lemma round_float64_small:
  assumes "0 \<le> v" and "v < 2 ^ 53"
  shows "round_float64 v = v"
proof -
  have "nat \<bar>v\<bar> < 2 ^ 53" using assms by (simp add: nat_less_iff)
  from bit_length_le[OF this] have e: "bit_length (nat \<bar>v\<bar>) - 53 = 0" by simp
  have "round_float64 v = sgn v * int (nat \<bar>v\<bar>)"
    unfolding round_float64_def Let_def e by simp
  also have "\<dots> = v" using assms(1) by (simp add: sgn_if)
  finally show ?thesis .
qed


lemma np_array_int64:
  assumes "concat data \<noteq> []" and "\<forall>v \<in> set (concat data). 0 \<le> v \<and> v < 2 ^ 63"
  shows "np_array data = (Int64, data)"
proof -
  have "\<forall>v \<in> set (concat data). int_dtype v = Int64"
  proof
    fix v assume "v \<in> set (concat data)"
    with assms(2) have "0 \<le> v" "v < 2 ^ 63" by blast+
    then have "- (2 ^ 63) \<le> v \<and> v < 2 ^ 63" by simp
    then show "int_dtype v = Int64" unfolding int_dtype_def by (simp only: simp_thms if_True)
  qed
  then have "list_all (\<lambda>t. t = Int64) (map int_dtype (concat data))"
    by (simp add: list_all_iff)
  then show ?thesis using assms(1) by (simp add: np_array_def Let_def)
qed







subsection \<open>Normalisation\<close>

lemma parse_lines_rows4:
  "parse_lines lines [] [] = (data, labels) \<Longrightarrow> list_all (\<lambda>row. length row = 4) data"
proof -
  assume p: "parse_lines lines [] [] = (data, labels)"
  have d: "data = map fst (List.map_filter parse_line lines)"
    using p by (simp add: parse_lines_acc)
  have "\<forall>x \<in> set (List.map_filter parse_line lines). length (fst x) = 4"
  proof
    fix x assume "x \<in> set (List.map_filter parse_line lines)"
    then obtain line where "parse_line line = Some x"
      by (auto simp: List.map_filter_def)
    then have "parse_line line = Some (fst x, snd x)" by simp
    from parse_line_SomeD[OF this] show "length (fst x) = 4" by auto
  qed
  then show ?thesis by (simp add: d list_all_iff)
qed

lemma parse_lines_nonneg:
  assumes p: "parse_lines lines [] [] = (data, labels)"
  shows "\<forall>row \<in> set data. \<forall>x \<in> set row. 0 \<le> x"
proof -
  have d: "data = map fst (List.map_filter parse_line lines)"
    using p by (simp add: parse_lines_acc)
  have "\<forall>s \<in> set (List.map_filter parse_line lines). \<forall>x \<in> set (fst s). 0 \<le> x"
  proof
    fix s assume "s \<in> set (List.map_filter parse_line lines)"
    then obtain line where "parse_line line = Some s"
      by (auto simp: List.map_filter_def)
    then have "parse_line line = Some (fst s, snd s)" by simp
    from parse_line_SomeD[OF this] obtain r g b c where
      "digits r" "digits g" "digits b" "digits c"
      "fst s = [int_of_digits r, int_of_digits g, int_of_digits b, int_of_digits c]" by blast
    then show "\<forall>x \<in> set (fst s). 0 \<le> x" by (simp add: int_of_digits_nonneg)
  qed
  then show ?thesis by (simp add: d)
qed

lemma sequence_Inr:
  "\<forall>x \<in> set xs. g x = Inr (f x) \<Longrightarrow> sequence (map g xs) = Inr (map f xs)"
  by (induction xs) simp_all

lemma divide_2048_small:
  assumes "0 \<le> v" and "v < 2 ^ 53"
  shows "divide_2048 Int64 v = Inr (real_of_int v / 2048)"
  using round_float64_small[OF assms] by (simp add: divide_2048_def)

text \<open>
  Claim C8, as amended. For the samples \<open>parse_input\<close> returns (at least one) from a
  log whose readings are all below \<open>2 ^ 53\<close>, the sample array has element type
  \<open>int64\<close> and \<open>normalize_data\<close> returns an array of element type \<open>float64\<close>, the
  result type of dividing two integer arrays, not a 32-bit type. It has one row of
  four values per sample, each the raw channel divided by 2048. Nothing is clipped
  and no error is raised: a reading above 2048 gives a ratio above 1.
\<close>

theorem normalize_data_float64_no_clipping:
  assumes "parse_lines lines [] [] = (data, labels)" and "data \<noteq> []"
    and "\<forall>row \<in> set data. \<forall>x \<in> set row. x < 2 ^ 53"
  shows "np_array data = (Int64, data) \<and>
         normalize_data (np_array data) =
           Inr (Float64, map (map (\<lambda>x. real_of_int x / 2048)) data) \<and>
         (\<forall>row \<in> set data. length (map (\<lambda>x. real_of_int x / 2048) row) = 4 \<and>
            (\<forall>x \<in> set row. 2048 < x \<longrightarrow> 1 < real_of_int x / 2048))"
proof -
  from parse_lines_rows4[OF assms(1)] have r4: "list_all (\<lambda>row. length row = 4) data" .
  from parse_lines_nonneg[OF assms(1)] have nn: "\<forall>row \<in> set data. \<forall>x \<in> set row. 0 \<le> x" .
  obtain row rest where data: "data = row # rest" using assms(2) by (cases data) auto
  with r4 have "row \<noteq> []" by auto
  then have ne: "concat data \<noteq> []" by (simp add: data)
  have "\<forall>v \<in> set (concat data). 0 \<le> v \<and> v < 2 ^ 63"
  proof
    fix v assume "v \<in> set (concat data)"
    then obtain r where "r \<in> set data" "v \<in> set r" by auto
    with nn assms(3) have "0 \<le> v" "v < 2 ^ 53" by auto
    then show "0 \<le> v \<and> v < 2 ^ 63" by simp
  qed
  from np_array_int64[OF ne this] have a: "np_array data = (Int64, data)" .
  have rows: "\<forall>r \<in> set data.
      sequence (map (divide_2048 Int64) r) = Inr (map (\<lambda>x. real_of_int x / 2048) r)"
  proof
    fix r assume r: "r \<in> set data"
    have "\<forall>x \<in> set r. divide_2048 Int64 x = Inr (real_of_int x / 2048)"
      using nn assms(3) r by (auto intro: divide_2048_small)
    then show "sequence (map (divide_2048 Int64) r) = Inr (map (\<lambda>x. real_of_int x / 2048) r)"
      by (rule sequence_Inr)
  qed
  have "sequence (map (\<lambda>r. sequence (map (divide_2048 Int64) r)) data) =
        Inr (map (map (\<lambda>x. real_of_int x / 2048)) data)"
    using rows by (rule sequence_Inr)
  then have n: "normalize_data (np_array data) =
      Inr (Float64, map (map (\<lambda>x. real_of_int x / 2048)) data)"
    using r4 assms(2) by (simp add: a normalize_data_def)
  have "\<forall>row \<in> set data. length (map (\<lambda>x. real_of_int x / 2048) row) = 4"
    using r4 by (simp add: list_all_iff)
  with a n show ?thesis by auto
qed

text \<open>
  Claim C8 as stated fails: the features of the sample line of the specification are
  64-bit floating-point values.
\<close>

theorem normalize_data_float32_counterexample:
  "normalize_data (np_array [[1794, 2164, 1742, 1996]]) =
     Inr (Float64, [[1794 / 2048, 2164 / 2048, 1742 / 2048, 1996 / 2048]]) \<and> Float64 \<noteq> Float32"
proof -
  have "np_array [[1794, 2164, 1742, 1996]] = (Int64, [[1794, 2164, 1742, 1996]])"
    by (rule np_array_int64) simp_all
  moreover have "divide_2048 Int64 1794 = Inr (1794 / 2048)" "divide_2048 Int64 2164 = Inr (2164 / 2048)"
    "divide_2048 Int64 1742 = Inr (1742 / 2048)" "divide_2048 Int64 1996 = Inr (1996 / 2048)"
    using divide_2048_small[of 1794] divide_2048_small[of 2164] divide_2048_small[of 1742]
      divide_2048_small[of 1996] by simp_all
  ultimately show ?thesis by (simp add: normalize_data_def)
qed

theorem normalize_data_witness:
  "parse_lines [''Red: 1794, Green: 2164, Blue: 1742, Clear: 1996, Color: White\<newline>''] [] [] =
     ([[1794, 2164, 1742, 1996]], [''White'']) \<and>
   np_array [[1794, 2164, 1742, 1996]] = (Int64, [[1794, 2164, 1742, 1996]]) \<and>
   normalize_data (Int64, [[1794, 2164, 1742, 1996]]) =
     Inr (Float64, [[1794 / 2048, 2164 / 2048, 1742 / 2048, 1996 / 2048]]) \<and>
   (1::real) < 2164 / 2048"
proof -
  have p: "parse_lines [''Red: 1794, Green: 2164, Blue: 1742, Clear: 1996, Color: White\<newline>''] [] [] =
     ([[1794, 2164, 1742, 1996]], [''White''])"
    by (simp add: white_line)
  have ne: "[[1794, 2164, 1742, 1996]] \<noteq> ([] :: int list list)" by simp
  have b: "\<forall>row \<in> set [[1794, 2164, 1742, 1996 :: int]]. \<forall>x \<in> set row. x < 2 ^ 53" by simp
  from normalize_data_float64_no_clipping[OF p ne b]
  have a: "np_array [[1794, 2164, 1742, 1996]] = (Int64, [[1794, 2164, 1742, 1996]])"
    and n: "normalize_data (np_array [[1794, 2164, 1742, 1996]]) =
      Inr (Float64, map (map (\<lambda>x. real_of_int x / 2048)) [[1794, 2164, 1742, 1996]])"
    and c: "\<forall>row \<in> set [[1794, 2164, 1742, 1996 :: int]].
              \<forall>x \<in> set row. 2048 < x \<longrightarrow> 1 < real_of_int x / 2048"
    by blast+
  from c have "(2048::int) < 2164 \<longrightarrow> (1::real) < real_of_int 2164 / 2048" by simp
  then have "(1::real) < 2164 / 2048" by simp
  with p a n show ?thesis by simp
qed

text \<open>
  The bound on the readings is needed: the reading \<open>2 ^ 53 + 1\<close> is not a \<open>float64\<close>,
  and its feature is \<open>2 ^ 42\<close>; beside a reading of \<open>2 ^ 63\<close> or more the samples are
  rounded already in the array \<open>parse_input\<close> returns.
\<close>

lemma bit_length_eq: "2 ^ k \<le> n \<Longrightarrow> n < 2 ^ Suc k \<Longrightarrow> bit_length n = Suc k"
proof (induction k arbitrary: n)
  case 0
  then have "n = 1" by simp
  then show ?case by (simp add: bit_length.simps[of "Suc 0"] bit_length.simps[of 0])
next
  case (Suc k)
  have "2 ^ k \<le> n div 2" "n div 2 < 2 ^ Suc k" using Suc.prems by auto
  from Suc.IH[OF this] have "bit_length (n div 2) = Suc k" .
  moreover have "n \<noteq> 0" using Suc.prems by auto
  ultimately show ?case by (simp add: bit_length.simps[of n])
qed

lemma round_float64_above_2_53: "round_float64 9007199254740993 = 9007199254740992"
proof -
  have "bit_length 9007199254740993 = Suc 53" by (rule bit_length_eq) simp_all
  then show ?thesis by (simp add: round_float64_def Let_def)
qed

lemma normalize_data_rounds_above_2_53:
  "normalize_data (np_array [[9007199254740993, 0, 0, 0]]) = Inr (Float64, [[4398046511104, 0, 0, 0]])"
proof -
  have "np_array [[9007199254740993, 0, 0, 0]] = (Int64, [[9007199254740993, 0, 0, 0]])"
    by (rule np_array_int64) simp_all
  moreover have "divide_2048 Int64 0 = Inr 0"
    using divide_2048_small[of 0] by simp
  moreover have "divide_2048 Int64 9007199254740993 = Inr 4398046511104"
    by (simp add: divide_2048_def round_float64_above_2_53)
  ultimately show ?thesis by (simp add: normalize_data_def)
qed

lemma np_array_rounds_mixed:
  "np_array [[9223372036854775809, 2, 3, 4]] = (Float64, [[9223372036854775808, 2, 3, 4]])"
proof -
  have b: "bit_length 9223372036854775809 = Suc 63" by (rule bit_length_eq) simp_all
  have 1: "round_float64 9223372036854775809 = 9223372036854775808"
    by (simp add: round_float64_def Let_def b)
  have 2: "round_float64 2 = 2" "round_float64 3 = 3" "round_float64 4 = 4"
    by (simp_all add: round_float64_small)
  show ?thesis by (simp add: np_array_def Let_def int_dtype_def 1 2)
qed

subsection \<open>Label encoder\<close>

lemma label_dict_simps:
  "label_dict s =
     (if s = ''White'' then Some 3 else if s = ''Green'' then Some 2
      else if s = ''Black'' then Some 1 else if s = ''Red'' then Some 0 else None)"
  by (simp add: label_dict_def unique_labels_def)

lemma label_dict_Some_iff: "(\<exists>j. label_dict l = Some j) \<longleftrightarrow> l \<in> set unique_labels"
  by (auto simp: label_dict_simps unique_labels_def split: if_splits)

lemma encode_loop_ok:
  "\<forall>p \<in> set ps. snd p \<in> set unique_labels \<Longrightarrow>
   encode_loop ps enc = Inr (foldl (\<lambda>e (i, l). e[i := (e ! i)[the (label_dict l) := 1]]) enc ps)"
proof (induction ps arbitrary: enc)
  case Nil then show ?case by simp
next
  case (Cons p ps)
  obtain i l where p: "p = (i, l)" by (cases p)
  from Cons.prems p have "l \<in> set unique_labels" by simp
  then obtain j where "label_dict l = Some j"
    using label_dict_Some_iff by blast
  with Cons p show ?case by simp
qed

lemma foldl_rows:
  "length enc = k + length ls \<Longrightarrow>
   foldl (\<lambda>e (i, l). e[i := (e ! i)[f l := (1::real)]]) enc (enumerate k ls) =
   take k enc @ map (\<lambda>(r, l). r[f l := 1]) (zip (drop k enc) ls)"
proof (induction ls arbitrary: k enc)
  case Nil then show ?case by simp
next
  case (Cons l ls)
  have k: "k < length enc" using Cons.prems by simp
  let ?enc' = "enc[k := (enc ! k)[f l := 1]]"
  have "length ?enc' = Suc k + length ls" using Cons.prems by simp
  from Cons.IH[OF this]
  have "foldl (\<lambda>e (i, l). e[i := (e ! i)[f l := 1]]) ?enc' (enumerate (Suc k) ls) =
        take (Suc k) ?enc' @ map (\<lambda>(r, l). r[f l := 1]) (zip (drop (Suc k) ?enc') ls)" .
  moreover have "take (Suc k) ?enc' = take k enc @ [(enc ! k)[f l := 1]]"
    using k by (simp add: take_Suc_conv_app_nth)
  moreover have "drop (Suc k) ?enc' = drop (Suc k) enc" by simp
  moreover have "drop k enc = enc ! k # drop (Suc k) enc"
    using k by (simp add: Cons_nth_drop_Suc)
  ultimately show ?case by simp
qed

lemma encode_loop_fail:
  "find (\<lambda>l. l \<notin> set unique_labels) (map snd ps) = Some l \<Longrightarrow>
   encode_loop ps enc = Inl (KeyError l)"
proof (induction ps arbitrary: enc)
  case Nil then show ?case by simp
next
  case (Cons p ps)
  obtain i l' where p: "p = (i, l')" by (cases p)
  show ?case
  proof (cases "label_dict l'")
    case None
    then have "l' \<notin> set unique_labels" using label_dict_Some_iff by force
    with None p Cons.prems show ?thesis by simp
  next
    case (Some j)
    then have "l' \<in> set unique_labels" using label_dict_Some_iff by blast
    with Cons.prems p have "find (\<lambda>l. l \<notin> set unique_labels) (map snd ps) = Some l" by simp
    from Cons.IH[OF this, of "enc[i := (enc ! i)[j := 1]]"] Some p show ?thesis by simp
  qed
qed

lemma row_update:
  "l \<in> set unique_labels \<Longrightarrow>
   (replicate (length unique_labels) (0::real))[the (label_dict l) := 1] = one_hot_row l"
  by (auto simp: unique_labels_def label_dict_simps one_hot_row_def)

text \<open>
  Claim C4. The vocabulary is Red, Black, Green, White, in this order. When every
  label is in the vocabulary, \<open>one_hot_encode\<close> returns one row per label, of length 4,
  with 1 at the vocabulary index of the label and 0 elsewhere. When some label is
  not in the vocabulary, it raises \<open>KeyError\<close> for the first such label and returns no
  encoding at all.
\<close>

theorem one_hot_encode_closed_vocabulary:
  "unique_labels = [''Red'', ''Black'', ''Green'', ''White''] \<and>
   (set labels \<subseteq> set unique_labels \<longrightarrow>
      one_hot_encode labels = Inr (map one_hot_row labels, unique_labels)) \<and>
   (\<not> set labels \<subseteq> set unique_labels \<longrightarrow>
      (\<exists>l. find (\<lambda>l. l \<notin> set unique_labels) labels = Some l \<and>
           one_hot_encode labels = Inl (KeyError l))) \<and>
   (\<forall>s. one_hot_row s =
      (if s = ''Red'' then [1, 0, 0, 0] else if s = ''Black'' then [0, 1, 0, 0]
       else if s = ''Green'' then [0, 0, 1, 0] else if s = ''White'' then [0, 0, 0, 1]
       else [0, 0, 0, 0]))"
proof (intro conjI impI allI)
  show "unique_labels = [''Red'', ''Black'', ''Green'', ''White'']" by (simp add: unique_labels_def)
next
  assume sub: "set labels \<subseteq> set unique_labels"
  let ?z = "replicate (length labels) (replicate (length unique_labels) (0::real))"
  have "\<forall>p \<in> set (enumerate 0 labels). snd p \<in> set unique_labels"
    using sub by (auto simp: enumerate_eq_zip dest: set_zip_rightD)
  then have "encode_loop (enumerate 0 labels) ?z =
      Inr (foldl (\<lambda>e (i, l). e[i := (e ! i)[the (label_dict l) := 1]]) ?z (enumerate 0 labels))"
    by (rule encode_loop_ok)
  also have "foldl (\<lambda>e (i, l). e[i := (e ! i)[the (label_dict l) := 1]]) ?z (enumerate 0 labels) =
      map (\<lambda>(r, l). r[the (label_dict l) := 1]) (zip ?z labels)"
    using foldl_rows[of ?z 0 labels "\<lambda>l. the (label_dict l)"] by simp
  also have "\<dots> = map one_hot_row labels"
    using sub by (auto simp: list_eq_iff_nth_eq row_update subset_iff)
  finally show "one_hot_encode labels = Inr (map one_hot_row labels, unique_labels)"
    by (simp add: one_hot_encode_def)
next
  assume "\<not> set labels \<subseteq> set unique_labels"
  then have "find (\<lambda>l. l \<notin> set unique_labels) labels \<noteq> None"
    by (auto simp: find_None_iff)
  then obtain l where l: "find (\<lambda>l. l \<notin> set unique_labels) labels = Some l" by blast
  then have "find (\<lambda>l. l \<notin> set unique_labels) (map snd (enumerate 0 labels)) = Some l"
    by (simp add: enumerate_eq_zip)
  from encode_loop_fail[OF this] have "one_hot_encode labels = Inl (KeyError l)"
    by (simp add: one_hot_encode_def)
  with l show "\<exists>l. find (\<lambda>l. l \<notin> set unique_labels) labels = Some l \<and>
      one_hot_encode labels = Inl (KeyError l)" by blast
next
  fix s show "one_hot_row s =
      (if s = ''Red'' then [1, 0, 0, 0] else if s = ''Black'' then [0, 1, 0, 0]
       else if s = ''Green'' then [0, 0, 1, 0] else if s = ''White'' then [0, 0, 0, 1]
       else [0, 0, 0, 0])"
    by (simp add: one_hot_row_def unique_labels_def)
qed


theorem one_hot_encode_witness:
  "one_hot_encode [''White'', ''Red''] = Inr ([[0, 0, 0, 1], [1, 0, 0, 0]], unique_labels) \<and>
   one_hot_encode [''White'', ''Blue'', ''Red''] = Inl (KeyError ''Blue'')"
proof -
  have a: "set [''White'', ''Red''] \<subseteq> set unique_labels"
    by (simp add: unique_labels_def)
  have b: "find (\<lambda>l. l \<notin> set unique_labels) [''White'', ''Blue'', ''Red''] = Some ''Blue''"
    by (simp add: unique_labels_def)
  have rows: "one_hot_row ''White'' = [0, 0, 0, 1]" "one_hot_row ''Red'' = [1, 0, 0, 0]"
    using one_hot_encode_closed_vocabulary [of "[]"] by simp_all
  have "one_hot_encode [''White'', ''Red''] = Inr (map one_hot_row [''White'', ''Red''], unique_labels)"
    using one_hot_encode_closed_vocabulary [of "[''White'', ''Red'']"] a by blast
  moreover have "\<not> set [''White'', ''Blue'', ''Red''] \<subseteq> set unique_labels"
    by (simp add: unique_labels_def)
  then have "one_hot_encode [''White'', ''Blue'', ''Red''] = Inl (KeyError ''Blue'')"
    using one_hot_encode_closed_vocabulary [of "[''White'', ''Blue'', ''Red'']"] b by auto
  ultimately show ?thesis by (simp add: rows)
qed

subsection \<open>Weight exporter\<close>

declare hex_digits.simps [simp del]

lemma sign_bits: "ucast (drop_bit 31 (bits_of f)) = sign f"
  unfolding bits_of_def
  by (rule bit_word_eqI) (auto simp: bit_simps dest: bit_imp_le_length)

lemma exp_bits: "ucast (drop_bit 23 (bits_of f)) = exponent f"
  unfolding bits_of_def
  by (rule bit_word_eqI) (auto simp: bit_simps dest: bit_imp_le_length)

lemma frac_bits: "ucast (bits_of f) = fraction f"
  unfolding bits_of_def
  by (rule bit_word_eqI) (auto simp: bit_simps dest: bit_imp_le_length)

lemma of_bits_bits_of: "of_bits (bits_of f) = f"
  by (simp add: of_bits_def sign_bits exp_bits frac_bits)

lemma bytes_of_int:
  fixes x :: int
  assumes "0 \<le> x" "x < 4294967296"
  shows "x mod 256 + 256 * (x div 256 mod 256) + 65536 * (x div 65536 mod 256)
         + 16777216 * (x div 16777216 mod 256) = x"
proof -
  define a where "a = x div 256"
  define b where "b = a div 256"
  define c where "c = b div 256"
  have xa: "x = 256 * a + x mod 256" by (simp add: a_def)
  have ab: "a = 256 * b + a mod 256" by (simp add: b_def)
  have bc: "b = 256 * c + b mod 256" by (simp add: c_def)
  have b': "x div 65536 = b" using zdiv_zmult2_eq[of 256 x 256] by (simp add: a_def b_def)
  have c': "x div 16777216 = c" using zdiv_zmult2_eq[of 256 x 65536] b' by (simp add: c_def)
  have "0 \<le> c" "c < 256" using assms c' by auto
  then have cm: "c mod 256 = c" by simp
  show ?thesis
    unfolding b' c' a_def[symmetric] cm using xa ab bc by linarith
qed

lemma uint_bytes:
  fixes w :: "32 word"
  shows "uint (ucast w :: 8 word) + 256 * uint (ucast (drop_bit 8 w) :: 8 word)
       + 65536 * uint (ucast (drop_bit 16 w) :: 8 word)
       + 16777216 * uint (ucast (drop_bit 24 w) :: 8 word) = uint w"
proof -
  have b: "uint w < 4294967296" using uint_bounded[of w] by simp
  have 0: "uint (ucast w :: 8 word) = uint w mod 256"
    by (simp add: take_bit_eq_mod unsigned_ucast_eq)
  have 1: "uint (ucast (drop_bit 8 w) :: 8 word) = uint w div 256 mod 256"
    by (simp add: unsigned_ucast_eq take_bit_eq_mod drop_bit_eq_div uint_div_distrib)
  have 2: "uint (ucast (drop_bit 16 w) :: 8 word) = uint w div 65536 mod 256"
    by (simp add: unsigned_ucast_eq take_bit_eq_mod drop_bit_eq_div uint_div_distrib)
  have 3: "uint (ucast (drop_bit 24 w) :: 8 word) = uint w div 16777216 mod 256"
    by (simp add: unsigned_ucast_eq take_bit_eq_mod drop_bit_eq_div uint_div_distrib)
  show ?thesis unfolding 0 1 2 3 using b by (intro bytes_of_int) simp_all
qed

lemma via_double_id: "\<not> is_signalling_nan f \<Longrightarrow> via_double f = f"
proof (cases "is_nan f")
  case False
  then show ?thesis by (simp add: via_double_def)
next
  case True
  assume "\<not> is_signalling_nan f"
  with True have b: "bit (fraction f) 22" by (simp add: is_signalling_nan_def)
  have "set_bit 22 (fraction f) = fraction f"
    by (rule bit_word_eqI) (auto simp: bit_set_bit_iff b)
  then show ?thesis by (simp add: via_double_def)
qed

lemma unpack_pack: "unpack_I (pack_f f) = uint (bits_of (via_double f))"
  by (simp add: unpack_I_def pack_f_def Let_def uint_bytes)

lemma hexdigit_val_hexdigit: "d < 16 \<Longrightarrow> hexdigit_val (hexdigit d) = Some d"
proof -
  assume "d < 16"
  then have "d \<in> {0, 1, 2, 3, 4, 5, 6, 7, 8, 9, 10, 11, 12, 13, 14, 15}" by simp presburger
  then show ?thesis
    unfolding hexdigit_val_def hexdigit_def
    by (elim insertE emptyE) (simp_all add: upt_rec)
qed

lemma read_hex_digits_append:
  "read_hex_digits (xs @ ys) acc =
     (case read_hex_digits xs acc of None \<Rightarrow> None | Some a \<Rightarrow> read_hex_digits ys a)"
  by (induction xs arbitrary: acc) (auto split: option.splits)

lemma read_hex_digits_hex_digits: "read_hex_digits (hex_digits n) 0 = Some n"
proof (induction n rule: hex_digits.induct)
  case (1 n)
  show ?case
  proof (cases "n < 16")
    case True
    then show ?thesis by (simp add: hex_digits.simps[of n] hexdigit_val_hexdigit)
  next
    case False
    then show ?thesis
      using 1 by (simp add: hex_digits.simps[of n] read_hex_digits_append hexdigit_val_hexdigit)
  qed
qed

lemma hex_digits_nonempty: "hex_digits n \<noteq> []"
  by (subst hex_digits.simps) simp

lemma hex_nonneg: "0 \<le> n \<Longrightarrow> hex n = ''0x'' @ hex_digits (nat n)"
  by (simp add: hex_def)

lemma float_to_hex_eq: "float_to_hex f = ''0x'' @ hex_digits (unat (bits_of (via_double f)))"
  by (simp add: float_to_hex_def unpack_pack hex_def)

lemma read_hex_literal_float_to_hex:
  "read_hex_literal (float_to_hex f) = Some (bits_of (via_double f))"
proof -
  have "unat (bits_of (via_double f)) < 2 ^ 32"
    using unsigned_less[of "bits_of (via_double f)"] by simp
  then show ?thesis
    by (simp add: read_hex_literal_def float_to_hex_eq hex_digits_nonempty read_hex_digits_hex_digits)
qed

lemma decode_encode: "decode_hex (float_to_hex f) = Some (via_double f)"
  by (simp add: decode_hex_def read_hex_literal_float_to_hex of_bits_bits_of)

lemma via_double_one: "via_double one_f32 = one_f32"
  by (simp add: via_double_def is_nan_def one_f32_def)


lemma bits_one: "bits_of one_f32 = 0x3f800000"
  by (simp add: bits_of_def one_f32_def)

lemma hex_one: "float_to_hex one_f32 = ''0x3f800000''"
  by (simp add: float_to_hex_eq via_double_one bits_one hex_digits.simps hexdigit_def)

lemma value_one: "float32_value one_f32 = Some 1"
  by (simp add: float32_value_def one_f32_def)



























text \<open>
  Claim C1, as amended. Decoding the literal \<open>float_to_hex\<close> gives for a \<open>float32\<close>
  that is not a signalling NaN yields that \<open>float32\<close>, bit for bit; for a signalling
  NaN it yields the quiet NaN of the same sign and payload. The value 1.0 has the
  pattern \<open>0x3f800000\<close> and is encoded as the literal \<open>0x3f800000\<close>.
\<close>

theorem float_to_hex_round_trip:
  "decode_hex (float_to_hex f) = Some (via_double f) \<and>
   (\<not> is_signalling_nan f \<longrightarrow> decode_hex (float_to_hex f) = Some f) \<and>
   bits_of one_f32 = 0x3f800000 \<and> float32_value one_f32 = Some 1 \<and>
   float_to_hex one_f32 = ''0x3f800000''"
  using decode_encode[of f] via_double_id[of f] bits_one value_one hex_one by simp

theorem float_to_hex_round_trip_witness:
  "\<not> is_signalling_nan one_f32 \<and> decode_hex (float_to_hex one_f32) = Some one_f32"
proof -
  have "\<not> is_signalling_nan one_f32"
    by (simp add: is_signalling_nan_def is_nan_def one_f32_def)
  with float_to_hex_round_trip[of one_f32] show ?thesis by blast
qed

text \<open>
  Claim C1 as stated fails: a signalling NaN does not come back bit for bit.
\<close>

theorem float_to_hex_signalling_nan_counterexample:
  "is_signalling_nan snan_f32 \<and> float_to_hex snan_f32 = ''0x7fc00001'' \<and>
   decode_hex (float_to_hex snan_f32) \<noteq> Some snan_f32"
proof -
  have n: "is_nan snan_f32" by (simp add: is_nan_def snan_f32_def)
  have s: "is_signalling_nan snan_f32"
    by (simp add: is_signalling_nan_def n) (simp add: snan_f32_def bit_simps)
  have q: "set_bit 22 (1 :: 23 word) = 0x400001"
    by (simp add: set_bit_eq_or)
  have v: "via_double snan_f32 = \<lparr>sign = 0, exponent = 255, fraction = 0x400001\<rparr>"
    using n by (simp add: via_double_def) (simp add: snan_f32_def q)
  have b: "bits_of (via_double snan_f32) = 0x7fc00001"
    by (simp add: v bits_of_def)
  have h: "float_to_hex snan_f32 = ''0x7fc00001''"
    by (simp add: float_to_hex_eq b hex_digits.simps hexdigit_def)
  have "via_double snan_f32 \<noteq> snan_f32" unfolding v by (simp add: snan_f32_def)
  then have "decode_hex (float_to_hex snan_f32) \<noteq> Some snan_f32"
    by (simp add: decode_encode)
  with s h show ?thesis by blast
qed


end
